theory Spec2Isabelle
  imports Complex_Main "HOL-Library.Sublist"
begin

section \<open>Constants, errors and the environment object\<close>

text \<open>
  Both classes start with \<^verbatim>\<open>from .util import *\<close>; that module is not among the
  sources, so every module-level constant the methods read is a field of a record that
  each function takes as its first argument. Nothing is assumed about the values.
\<close>

record util =
  NUM_CLASSES :: int
  NOTE_OFF :: int
  NO_EVENT :: int
  C_MAJOR_KEY :: "int list"
  C_MAJOR_TONIC :: int
  BEATS_PER_BAR :: int

text \<open>
  The interval constants that \<^verbatim>\<open>detect_sequential_interval\<close> and
  \<^verbatim>\<open>reward_preferred_intervals\<close> read as \<^verbatim>\<open>rl_tuner_ops.X\<close>. They are compared with
  and returned beside integer semitone distances; they are numbers, not necessarily
  integers.
\<close>

record rl_tuner_ops =
  OCTAVE :: real
  FIFTH :: real
  THIRD :: real
  SIXTH :: real
  SECOND :: real
  FOURTH :: real
  SEVENTH :: real
  REST_INTERVAL :: real
  HOLD_INTERVAL :: real
  REST_INTERVAL_AFTER_THIRD_OR_FIFTH :: real
  HOLD_INTERVAL_AFTER_THIRD_OR_FIFTH :: real
  IN_KEY_THIRD :: real
  IN_KEY_FIFTH :: real

text \<open>The exceptions a method of the two classes can raise.\<close>

datatype error = AttributeError | IndexError | UnboundLocalError

text \<open>
  The attributes of an environment object on which \<^verbatim>\<open>_reset\<close> has run.
  \<^verbatim>\<open>__init__\<close> assigns \<^verbatim>\<open>composition_length\<close>, \<^verbatim>\<open>_reset\<close> assigns
  \<^verbatim>\<open>composition\<close> and \<^verbatim>\<open>beat\<close>. \<^verbatim>\<open>reward_tonic\<close> reads \<^verbatim>\<open>self.num_notes\<close>, which no
  statement of either class assigns: the attribute is \<open>None\<close> until a caller sets it,
  and reading it then raises \<^verbatim>\<open>AttributeError\<close>.
\<close>

record env =
  composition :: "int list"
  beat :: int
  composition_length :: int
  num_notes :: "int option"

type_synonym info = "(string \<times> string) list"

subsection \<open>Python list indexing and slicing\<close>

definition py_index :: "'a list \<Rightarrow> int \<Rightarrow> error + 'a" where
  \<comment> \<open>\<^verbatim>\<open>xs[i]\<close>: from the front for \<open>0 \<le> i\<close>, from the end for \<open>i < 0\<close>, else \<^verbatim>\<open>IndexError\<close>.\<close>
  "py_index xs i =
     (if 0 \<le> i \<and> i < int (length xs) then Inr (xs ! nat i)
      else if i < 0 \<and> - int (length xs) \<le> i then Inr (xs ! nat (int (length xs) + i))
      else Inl IndexError)"

definition py_slice_from :: "'a list \<Rightarrow> int \<Rightarrow> 'a list" where
  \<comment> \<open>\<^verbatim>\<open>xs[i:]\<close>: a negative bound counts from the end, then the bound is clamped.\<close>
  "py_slice_from xs i =
     (let n = int (length xs); start = (if i < 0 then max (n + i) 0 else min i n)
      in drop (nat start) xs)"

definition py_slice_to :: "'a list \<Rightarrow> int \<Rightarrow> 'a list" where
  \<comment> \<open>\<^verbatim>\<open>xs[:j]\<close>.\<close>
  "py_slice_to xs j =
     (let n = int (length xs); stop = (if j < 0 then max (n + j) 0 else min j n)
      in take (nat stop) xs)"

section \<open>MusicEnv\<close>

definition MusicEnv_init_reset :: "env" where
  \<comment> \<open>\<^verbatim>\<open>__init__()\<close> followed by the assignments of \<^verbatim>\<open>_reset()\<close>.\<close>
  "MusicEnv_init_reset =
     \<lparr>composition = [], beat = 0, composition_length = 64, num_notes = None\<rparr>"

definition MusicEnv_step :: "env \<Rightarrow> int \<Rightarrow> env \<times> (int \<times> real \<times> bool \<times> info)" where
  "MusicEnv_step e action =
     (let e1 = e\<lparr>composition := composition e @ [action]\<rparr>;
          e2 = e1\<lparr>beat := beat e1 + 1\<rparr>
      in (e2, (action, 0, beat e2 = composition_length e2, [])))"

definition MusicEnv_reset :: "env \<Rightarrow> int \<Rightarrow> env \<times> int" where
  \<comment> \<open>The draw of \<^verbatim>\<open>random.randint(0, NUM_CLASSES - 1)\<close> is the argument \<open>r\<close>.\<close>
  "MusicEnv_reset e r = (e\<lparr>composition := [], beat := 0\<rparr>, r)"

section \<open>MusicTheoryEnv\<close>

definition reward_key :: "int \<Rightarrow> real \<Rightarrow> int list \<Rightarrow> real" where
  "reward_key action penalty_amount key =
     (if action \<notin> set key then penalty_amount else 0)"

subsection \<open>Repeated notes\<close>

text \<open>
  The loop \<^verbatim>\<open>for i in range(len(self.composition) - 2, -1, -1)\<close> with its three locals.
  The index never exceeds \<open>length cs - 2\<close>, so every read is in range.
\<close>

function repeat_scan ::
  "util \<Rightarrow> int list \<Rightarrow> int \<Rightarrow> int \<Rightarrow> int \<Rightarrow> bool \<Rightarrow> bool \<Rightarrow> int \<times> bool \<times> bool" where
  "repeat_scan c cs action i num_repeated contains_held_notes contains_breaks =
     (if 0 \<le> i then
        (if cs ! nat i = action then
           repeat_scan c cs action (i - 1) (num_repeated + 1) contains_held_notes contains_breaks
         else if cs ! nat i = NOTE_OFF c then
           repeat_scan c cs action (i - 1) num_repeated contains_held_notes True
         else if cs ! nat i = NO_EVENT c then
           repeat_scan c cs action (i - 1) num_repeated True contains_breaks
         else (num_repeated, contains_held_notes, contains_breaks))
      else (num_repeated, contains_held_notes, contains_breaks))"
  by pat_completeness auto
termination
  by (relation "measure (\<lambda>(c, cs, action, i, n, h, b). nat (i + 1))") auto

declare repeat_scan.simps [simp del]

definition detect_repeating_notes :: "util \<Rightarrow> env \<Rightarrow> int \<Rightarrow> bool" where
  "detect_repeating_notes c e action =
     (case repeat_scan c (composition e) action (int (length (composition e)) - 2) 0 False False of
        (num_repeated, contains_held_notes, contains_breaks) \<Rightarrow>
          if action = NOTE_OFF c \<and> num_repeated > 1 then True
          else if \<not> contains_held_notes \<and> \<not> contains_breaks then
            (if num_repeated > 4 then True else False)
          else if contains_held_notes \<or> contains_breaks then
            (if num_repeated > 6 then True else False)
          else
            (if num_repeated > 8 then True else False))"

text \<open>
  The same method with its last \<^verbatim>\<open>else\<close> branch (the test against 8) deleted; used
  only to state that the branch is dead.
\<close>

definition detect_repeating_notes_without_last_branch :: "util \<Rightarrow> env \<Rightarrow> int \<Rightarrow> bool" where
  "detect_repeating_notes_without_last_branch c e action =
     (case repeat_scan c (composition e) action (int (length (composition e)) - 2) 0 False False of
        (num_repeated, contains_held_notes, contains_breaks) \<Rightarrow>
          if action = NOTE_OFF c \<and> num_repeated > 1 then True
          else if \<not> contains_held_notes \<and> \<not> contains_breaks then
            (if num_repeated > 4 then True else False)
          else if contains_held_notes \<or> contains_breaks then
            (if num_repeated > 6 then True else False)
          else False)"

definition reward_non_repeating :: "util \<Rightarrow> env \<Rightarrow> int \<Rightarrow> real" where
  "reward_non_repeating c e action =
     (if \<not> detect_repeating_notes c e action then 0.1 else 0)"

subsection \<open>Tonic\<close>

definition reward_tonic :: "util \<Rightarrow> env \<Rightarrow> int \<Rightarrow> int \<Rightarrow> real \<Rightarrow> error + real" where
  "reward_tonic c e action tonic_note reward_amount =
     (case num_notes e of
        None \<Rightarrow> Inl AttributeError
      | Some n \<Rightarrow>
          (let first_note_of_final_bar = n - 4 in
           if beat e = 0 \<or> beat e = first_note_of_final_bar then
             (if action = tonic_note then Inr reward_amount else Inr 0.0)
           else if beat e = first_note_of_final_bar + 1 then
             (if action = NO_EVENT c then Inr reward_amount else Inr 0.0)
           else if beat e > first_note_of_final_bar + 1 then
             (if action = NO_EVENT c \<or> action = NOTE_OFF c then Inr reward_amount else Inr 0.0)
           else Inr 0.0))"

subsection \<open>Motifs\<close>

definition detect_last_motif :: "util \<Rightarrow> int list \<Rightarrow> int \<Rightarrow> int list option \<times> int" where
  "detect_last_motif c cs bar_length =
     (if int (length cs) < bar_length then (None, 0)
      else
        (let last_bar = py_slice_from cs (- bar_length);
             actual_notes = filter (\<lambda>a. a \<noteq> NO_EVENT c \<and> a \<noteq> NOTE_OFF c) last_bar;
             num_unique_notes = int (length (remdups actual_notes))
         in if num_unique_notes \<ge> 3 then (Some last_bar, num_unique_notes)
            else (None, num_unique_notes)))"

definition reward_motif :: "util \<Rightarrow> env \<Rightarrow> int \<Rightarrow> real \<Rightarrow> real" where
  "reward_motif c e action reward_amount =
     (case detect_last_motif c (composition e) (BEATS_PER_BAR c) of
        (Some motif, num_notes_in_motif) \<Rightarrow>
          (let motif_complexity_bonus = max (real_of_int (num_notes_in_motif - 3) * 0.3) 0
           in reward_amount + motif_complexity_bonus)
      | (None, num_notes_in_motif) \<Rightarrow> 0.0)"

text \<open>
  The inner loop of the search, \<^verbatim>\<open>for j in range(len(motif))\<close> with its
  \<^verbatim>\<open>break\<close> and \<^verbatim>\<open>else\<close>: \<open>True\<close> when the loop ends without \<^verbatim>\<open>break\<close>.
\<close>

function motif_match :: "int list \<Rightarrow> int list \<Rightarrow> nat \<Rightarrow> nat \<Rightarrow> bool" where
  "motif_match prev_composition motif i j =
     (if j < length motif then
        (if prev_composition ! (i + j) \<noteq> motif ! j then False
         else motif_match prev_composition motif i (j + 1))
      else True)"
  by pat_completeness auto
termination
  by (relation "measure (\<lambda>(p, m, i, j). length m - j)") auto

declare motif_match.simps [simp del]

text \<open>The outer loop, \<^verbatim>\<open>for i in range(len(prev_composition) - len(motif) + 1)\<close>.\<close>

function motif_search :: "int list \<Rightarrow> int list \<Rightarrow> nat \<Rightarrow> bool" where
  "motif_search prev_composition motif i =
     (if int i < int (length prev_composition) - int (length motif) + 1 then
        (if motif_match prev_composition motif i 0 then True
         else motif_search prev_composition motif (i + 1))
      else False)"
  by pat_completeness auto
termination
  by (relation "measure (\<lambda>(p, m, i). length p + 1 - i)") auto

declare motif_search.simps [simp del]

definition detect_repeated_motif ::
  "util \<Rightarrow> env \<Rightarrow> int \<Rightarrow> int \<Rightarrow> bool \<times> int list option" where
  "detect_repeated_motif c e action bar_length =
     (if int (length (composition e)) < bar_length then (False, None)
      else
        (case fst (detect_last_motif c (composition e) bar_length) of
           None \<Rightarrow> (False, None)
         | Some motif \<Rightarrow>
             (let prev_composition = py_slice_to (composition e) (- (bar_length - 1) - 1)
              in if motif_search prev_composition motif 0 then (True, Some motif)
                 else (False, None))))"

text \<open>
  \<^verbatim>\<open>detect_repeated_motif\<close> returns \<open>True\<close> only together with a motif, so the branch
  \<^verbatim>\<open>if is_repeated\<close> always has a list to filter.
\<close>

definition reward_repeated_motif :: "util \<Rightarrow> env \<Rightarrow> int \<Rightarrow> int \<Rightarrow> real \<Rightarrow> real" where
  "reward_repeated_motif c e action bar_length reward_amount =
     (case detect_repeated_motif c e action bar_length of
        (True, Some motif) \<Rightarrow>
          (let actual_notes = filter (\<lambda>a. a \<noteq> NO_EVENT c \<and> a \<noteq> NOTE_OFF c) motif;
               num_notes_in_motif = int (length (remdups actual_notes));
               motif_complexity_bonus = max (real_of_int (num_notes_in_motif - 3)) 0
           in reward_amount + motif_complexity_bonus)
      | _ \<Rightarrow> 0.0)"

subsection \<open>Melodic intervals\<close>

text \<open>
  The loop \<^verbatim>\<open>while (prev_note == NO_EVENT or prev_note == NOTE_OFF) and prev_note_index >= 0\<close>.
  It starts at \<open>length cs - 2\<close> and counts down, so every read is in range.
\<close>

function skip_non_notes :: "util \<Rightarrow> int list \<Rightarrow> int \<Rightarrow> int \<Rightarrow> int" where
  "skip_non_notes c cs prev_note prev_note_index =
     (if (prev_note = NO_EVENT c \<or> prev_note = NOTE_OFF c) \<and> prev_note_index \<ge> 0 then
        skip_non_notes c cs (cs ! nat prev_note_index) (prev_note_index - 1)
      else prev_note)"
  by pat_completeness auto
termination
  by (relation "measure (\<lambda>(c, cs, p, i). nat (i + 1))") auto

declare skip_non_notes.simps [simp del]

text \<open>
  \<^verbatim>\<open>detect_sequential_interval\<close>. The lists \<^verbatim>\<open>c_notes\<close>, \<^verbatim>\<open>g_notes\<close>, \<^verbatim>\<open>e_notes\<close>,
  \<^verbatim>\<open>tonic_notes\<close> and \<^verbatim>\<open>fifth_notes\<close> are bound only when \<^verbatim>\<open>key is None\<close>; with a key
  passed, the tests on a hold or a rest read an unbound local, and the tests on a fifth
  or a third stop at \<^verbatim>\<open>c_major\<close>. The calls of \<^verbatim>\<open>tf.logging.debug\<close> only log.
\<close>

definition detect_sequential_interval ::
  "util \<Rightarrow> rl_tuner_ops \<Rightarrow> env \<Rightarrow> int \<Rightarrow> int list option \<Rightarrow> error + (real \<times> int \<times> int)" where
  "detect_sequential_interval c ops e action key =
     (case py_index (composition e) (- 2) of
        Inl err \<Rightarrow> Inl err
      | Inr first_prev_note \<Rightarrow>
          (let c_major = (key = None);
               c_notes = [2, 14, 26];
               g_notes = [9, 21, 33];
               e_notes = [6, 18, 30];
               tonic_notes = [2, 14, 26];
               fifth_notes = [9, 21, 33];
               prev_note = skip_non_notes c (composition e) first_prev_note
                             (int (length (composition e)) - 2)
           in if prev_note = NOTE_OFF c \<or> prev_note = NO_EVENT c then Inr (0, action, prev_note)
              else if action = NO_EVENT c then
                (if \<not> c_major then Inl UnboundLocalError
                 else if prev_note \<in> set tonic_notes \<or> prev_note \<in> set fifth_notes then
                   Inr (HOLD_INTERVAL_AFTER_THIRD_OR_FIFTH ops, action, prev_note)
                 else Inr (HOLD_INTERVAL ops, action, prev_note))
              else if action = NOTE_OFF c then
                (if \<not> c_major then Inl UnboundLocalError
                 else if prev_note \<in> set tonic_notes \<or> prev_note \<in> set fifth_notes then
                   Inr (REST_INTERVAL_AFTER_THIRD_OR_FIFTH ops, action, prev_note)
                 else Inr (REST_INTERVAL ops, action, prev_note))
              else
                (let interval = \<bar>action - prev_note\<bar> in
                 if c_major \<and> real_of_int interval = FIFTH ops \<and>
                    (prev_note \<in> set c_notes \<or> prev_note \<in> set g_notes) then
                   Inr (IN_KEY_FIFTH ops, action, prev_note)
                 else if c_major \<and> real_of_int interval = THIRD ops \<and>
                    (prev_note \<in> set c_notes \<or> prev_note \<in> set e_notes) then
                   Inr (IN_KEY_THIRD ops, action, prev_note)
                 else Inr (real_of_int interval, action, prev_note))))"

definition reward_preferred_intervals ::
  "util \<Rightarrow> rl_tuner_ops \<Rightarrow> env \<Rightarrow> int \<Rightarrow> real \<Rightarrow> int list option \<Rightarrow> error + real" where
  "reward_preferred_intervals c ops e action scaler key =
     (case detect_sequential_interval c ops e action key of
        Inl err \<Rightarrow> Inl err
      | Inr (interval, _, _) \<Rightarrow>
          if interval = 0 then Inr 0.0
          else
            (let reward = 0.0;
                 reward = (if interval = REST_INTERVAL ops then 0.05 else reward);
                 reward = (if interval = HOLD_INTERVAL ops then 0.075 else reward);
                 reward = (if interval = REST_INTERVAL_AFTER_THIRD_OR_FIFTH ops then 0.15 else reward);
                 reward = (if interval = HOLD_INTERVAL_AFTER_THIRD_OR_FIFTH ops then 0.3 else reward);
                 reward = (if interval = SEVENTH ops then - 0.3 else reward);
                 reward = (if interval > OCTAVE ops then - 1.0 else reward);
                 reward = (if interval = IN_KEY_FIFTH ops then 0.1 else reward);
                 reward = (if interval = IN_KEY_THIRD ops then 0.15 else reward);
                 reward = (if interval = THIRD ops then 0.09 else reward);
                 reward = (if interval = SECOND ops then 0.08 else reward);
                 reward = (if interval = FOURTH ops then 0.07 else reward);
                 reward = (if interval = SIXTH ops then 0.05 else reward);
                 reward = (if interval = FIFTH ops then 0.02 else reward)
             in Inr (reward * scaler)))"

subsection \<open>The step\<close>

text \<open>
  \<^verbatim>\<open>MusicTheoryEnv._step\<close>: the base step mutates the object first, then the five
  rewards are added in the order of the source. An exception of \<^verbatim>\<open>reward_tonic\<close>
  leaves the mutated object behind and no tuple is returned.
\<close>

definition MusicTheoryEnv_step ::
  "util \<Rightarrow> env \<Rightarrow> int \<Rightarrow> env \<times> (error + (int \<times> real \<times> bool \<times> info))" where
  "MusicTheoryEnv_step c e action =
     (case MusicEnv_step e action of
        (e', (state, reward, done, info)) \<Rightarrow>
          (case reward_tonic c e' action (C_MAJOR_TONIC c) 3 of
             Inl err \<Rightarrow> (e', Inl err)
           | Inr tonic \<Rightarrow>
               (let reward = reward + tonic;
                    reward = reward + reward_key action (- 1) (C_MAJOR_KEY c);
                    reward = reward + reward_non_repeating c e' action;
                    reward = reward + reward_motif c e' action 3.0;
                    reward = reward + reward_repeated_motif c e' action (BEATS_PER_BAR c) 4.0
                in (e', Inr (state, reward, done, info)))))"

text \<open>The object after a sequence of calls of \<^verbatim>\<open>_step\<close>, one per action.\<close>

definition after_steps :: "util \<Rightarrow> env \<Rightarrow> int list \<Rightarrow> env" where
  "after_steps c e actions = foldl (\<lambda>e' a. fst (MusicTheoryEnv_step c e' a)) e actions"

subsection \<open>Sample values of the constants\<close>

text \<open>
  One instance of each record of constants, for evaluating the functions on explicit
  inputs. The values are those of the \<^verbatim>\<open>rl_tuner\<close> module that the docstring of
  \<^verbatim>\<open>MusicTheoryEnv\<close> names as its source: rest 0, hold 1, the tonic 14, bars of 8 beats,
  a fifth of 7 and a third of 4 semitones.
\<close>

definition sample_util :: util where
  "sample_util =
     \<lparr>NUM_CLASSES = 38, NOTE_OFF = 0, NO_EVENT = 1,
      C_MAJOR_KEY = [0, 1, 2, 4, 6, 7, 9, 11, 13, 14, 16, 18, 19, 21, 23, 25, 26, 28, 30, 31, 33, 35, 37],
      C_MAJOR_TONIC = 14, BEATS_PER_BAR = 8\<rparr>"

definition sample_ops :: rl_tuner_ops where
  "sample_ops =
     \<lparr>OCTAVE = 12, FIFTH = 7, THIRD = 4, SIXTH = 9, SECOND = 2, FOURTH = 5, SEVENTH = 11,
      REST_INTERVAL = - 1, HOLD_INTERVAL = - 1.5,
      REST_INTERVAL_AFTER_THIRD_OR_FIFTH = - 2, HOLD_INTERVAL_AFTER_THIRD_OR_FIFTH = - 2.5,
      IN_KEY_THIRD = - 3, IN_KEY_FIFTH = - 5\<rparr>"

section \<open>Slices and the motif search\<close>

lemma py_slice_from_neg:
  "0 < bl \<Longrightarrow> py_slice_from cs (- bl) = drop (length cs - nat bl) cs"
  by (auto simp: py_slice_from_def Let_def max_def nat_diff_distrib' intro: arg_cong2[where f=drop])

lemma py_slice_to_neg:
  "0 < bl \<Longrightarrow> py_slice_to cs (- bl) = take (length cs - nat bl) cs"
  by (auto simp: py_slice_to_def Let_def max_def nat_diff_distrib' intro: arg_cong2[where f=take])

text \<open>The inner loop succeeds when the motif agrees with the earlier notes from \<open>j\<close> on.\<close>

lemma motif_match_iff:
  "motif_match p m i j \<longleftrightarrow> (\<forall>k. j \<le> k \<and> k < length m \<longrightarrow> p ! (i + k) = m ! k)"
proof (induction p m i j rule: motif_match.induct)
  case (1 p m i j)
  show ?case
  proof (cases "j < length m")
    case False
    then show ?thesis by (simp add: motif_match.simps[of p m i j])
  next
    case True
    show ?thesis
    proof (cases "p ! (i + j) = m ! j")
      case False
      with True show ?thesis
        by (auto simp: motif_match.simps[of p m i j])
    next
      case eq: True
      have "motif_match p m i j = motif_match p m i (j + 1)"
        using True eq by (simp add: motif_match.simps[of p m i j])
      also have "\<dots> \<longleftrightarrow> (\<forall>k. j + 1 \<le> k \<and> k < length m \<longrightarrow> p ! (i + k) = m ! k)"
        using 1 True eq by simp
      also have "\<dots> \<longleftrightarrow> (\<forall>k. j \<le> k \<and> k < length m \<longrightarrow> p ! (i + k) = m ! k)"
        using eq by (metis Suc_eq_plus1 Suc_leI le_neq_implies_less le_simps(3) nat_less_le not_less_eq_eq)
      finally show ?thesis .
    qed
  qed
qed

lemma match_iff_take_drop:
  assumes "i + length m \<le> length p"
  shows "motif_match p m i 0 \<longleftrightarrow> take (length m) (drop i p) = m"
proof -
  have "take (length m) (drop i p) = m \<longleftrightarrow> (\<forall>k<length m. p ! (i + k) = m ! k)"
    using assms by (auto simp: list_eq_iff_nth_eq)
  then show ?thesis by (simp add: motif_match_iff)
qed

text \<open>The outer loop succeeds when some start position from \<open>i\<close> on fits and matches.\<close>

lemma motif_search_iff:
  "motif_search p m i \<longleftrightarrow> (\<exists>i'\<ge>i. i' + length m \<le> length p \<and> motif_match p m i' 0)"
proof (induction p m i rule: motif_search.induct)
  case (1 p m i)
  show ?case
  proof (cases "int i < int (length p) - int (length m) + 1")
    case False
    then have "\<not> motif_search p m i"
      by (simp add: motif_search.simps[of p m i])
    moreover from False have "\<not> (\<exists>i'\<ge>i. i' + length m \<le> length p \<and> motif_match p m i' 0)"
      by auto
    ultimately show ?thesis by blast
  next
    case True
    then have fits: "i + length m \<le> length p" by linarith
    show ?thesis
    proof (cases "motif_match p m i 0")
      case hit: True
      then have "motif_search p m i"
        using True by (simp add: motif_search.simps[of p m i])
      with hit fits show ?thesis by blast
    next
      case miss: False
      have "motif_search p m i = motif_search p m (i + 1)"
        using True miss by (simp add: motif_search.simps[of p m i])
      also have "\<dots> \<longleftrightarrow> (\<exists>i'\<ge>i + 1. i' + length m \<le> length p \<and> motif_match p m i' 0)"
        using 1 True miss by simp
      also have "\<dots> \<longleftrightarrow> (\<exists>i'\<ge>i. i' + length m \<le> length p \<and> motif_match p m i' 0)"
      proof
        assume "\<exists>i'\<ge>i + 1. i' + length m \<le> length p \<and> motif_match p m i' 0"
        then show "\<exists>i'\<ge>i. i' + length m \<le> length p \<and> motif_match p m i' 0"
          by (meson add_leD1)
      next
        assume "\<exists>i'\<ge>i. i' + length m \<le> length p \<and> motif_match p m i' 0"
        then obtain i' where i': "i \<le> i'" "i' + length m \<le> length p" "motif_match p m i' 0"
          by blast
        with miss have "i' \<noteq> i" by blast
        with i' have "i + 1 \<le> i'" by simp
        with i' show "\<exists>i'\<ge>i + 1. i' + length m \<le> length p \<and> motif_match p m i' 0"
          by blast
      qed
      finally show ?thesis .
    qed
  qed
qed

lemma sublist_iff_take_drop:
  "sublist m p \<longleftrightarrow> (\<exists>i. i + length m \<le> length p \<and> take (length m) (drop i p) = m)"
proof
  assume "sublist m p"
  then obtain ps ss where "p = ps @ m @ ss" by (auto simp: sublist_def)
  then have "length ps + length m \<le> length p \<and> take (length m) (drop (length ps) p) = m"
    by simp
  then show "\<exists>i. i + length m \<le> length p \<and> take (length m) (drop i p) = m" ..
next
  assume "\<exists>i. i + length m \<le> length p \<and> take (length m) (drop i p) = m"
  then obtain i where i: "i + length m \<le> length p" "take (length m) (drop i p) = m" by blast
  have "drop i p = take (length m) (drop i p) @ drop (length m) (drop i p)"
    by (simp only: append_take_drop_id)
  with i have "drop i p = m @ drop (length m) (drop i p)" by simp
  then have "p = take i p @ m @ drop (length m) (drop i p)"
    by (metis append_take_drop_id)
  then show "sublist m p" unfolding sublist_def by blast
qed

lemma motif_search_sublist: "motif_search p m 0 \<longleftrightarrow> sublist m p"
  using match_iff_take_drop by (auto simp: motif_search_iff sublist_iff_take_drop)

lemma distinct_count:
  "length (remdups (filter (\<lambda>a. a \<noteq> h \<and> a \<noteq> r) w)) = card (set w - {h, r})"
proof -
  have "set (filter (\<lambda>a. a \<noteq> h \<and> a \<noteq> r) w) = set w - {h, r}" by auto
  then show ?thesis by (simp add: length_remdups_card_conv)
qed

section \<open>The motif detectors\<close>

text \<open>
  Claim C1. For a positive bar length (the detector's contract; the callers pass
  \<^verbatim>\<open>BEATS_PER_BAR\<close>, the default is 8), \<^verbatim>\<open>detect_repeated_motif\<close> returns
  \<open>(False, None)\<close> when the composition is shorter than the bar length or when
  \<^verbatim>\<open>detect_last_motif\<close> finds no motif. Otherwise the prior segment is the composition
  without its last \<open>bar_length\<close> elements, the window is those last elements, and the
  result is \<open>(True, window)\<close> exactly when the window occurs contiguously in the prior
  segment, \<open>(False, None)\<close> when it does not. The scan runs from the left and stops at
  the first match; the position found is not part of the result.
\<close>

theorem detect_repeated_motif_searches_prior_segment:
  assumes "0 < bar_length"
  shows "detect_repeated_motif c e action bar_length =
     (let cs = composition e;
          prior = take (length cs - nat bar_length) cs;
          w = drop (length cs - nat bar_length) cs
      in if int (length cs) < bar_length \<or> fst (detect_last_motif c cs bar_length) = None
         then (False, None)
         else if sublist w prior then (True, Some w) else (False, None))"
proof (cases "fst (detect_last_motif c (composition e) bar_length)")
  case None
  then show ?thesis by (simp add: detect_repeated_motif_def Let_def)
next
  case (Some motif)
  then have "motif = drop (length (composition e) - nat bar_length) (composition e)"
    using assms
    by (auto simp: detect_last_motif_def py_slice_from_neg Let_def split: if_splits)
  with Some show ?thesis
    using assms
    by (simp add: detect_repeated_motif_def py_slice_to_neg motif_search_sublist Let_def)
qed

theorem detect_repeated_motif_searches_prior_segment_witness:
  "(0::int) < 3
   \<and> detect_repeated_motif sample_util
        \<lparr>composition = [2, 4, 6, 2, 4, 6], beat = 6, composition_length = 64, num_notes = None\<rparr>
        6 3 = (True, Some [2, 4, 6])
   \<and> sublist [2, 4, 6] [2, 4, 6 :: int]"
  using detect_repeated_motif_searches_prior_segment [of 3 sample_util
      "\<lparr>composition = [2, 4, 6, 2, 4, 6], beat = 6, composition_length = 64, num_notes = None\<rparr>" 6]
  by (simp add: detect_last_motif_def py_slice_from_def sample_util_def Let_def split: if_splits)

text \<open>
  Claim C2. For a positive bar length, \<^verbatim>\<open>detect_last_motif\<close> returns \<open>(None, 0)\<close> when
  the composition is shorter than the bar length. Otherwise, with \<open>w\<close> the last
  \<open>bar_length\<close> elements (exactly that many) and \<open>d\<close> the number of distinct codes of
  \<open>w\<close> other than \<^verbatim>\<open>NO_EVENT\<close> and \<^verbatim>\<open>NOTE_OFF\<close>, it returns \<open>(w, d)\<close> when \<open>d \<ge> 3\<close> and
  \<open>(None, d)\<close> when \<open>d < 3\<close>. The method assigns only locals (the slice and the filtered
  list are new lists), so the embedding is a function of the composition and the
  composition is the same list after the call.
\<close>

theorem detect_last_motif_trailing_window:
  assumes "0 < bar_length"
  shows "detect_last_motif c cs bar_length =
     (if int (length cs) < bar_length then (None, 0)
      else
        (let w = drop (length cs - nat bar_length) cs;
             d = int (card (set w - {NO_EVENT c, NOTE_OFF c}))
         in if 3 \<le> d then (Some w, d) else (None, d)))
     \<and> (bar_length \<le> int (length cs) \<longrightarrow>
          length (drop (length cs - nat bar_length) cs) = nat bar_length)"
  using assms
  by (auto simp: detect_last_motif_def py_slice_from_neg distinct_count Let_def)

theorem detect_last_motif_trailing_window_witness:
  "(0::int) < 8
   \<and> detect_last_motif sample_util [14, 2, 4, 1, 6, 0, 2, 4, 6] 8 = (Some [2, 4, 1, 6, 0, 2, 4, 6], 3)
   \<and> detect_last_motif sample_util [14, 2, 2, 1, 4, 0, 2, 4, 2] 8 = (None, 2)
   \<and> detect_last_motif sample_util [2, 4, 6] 8 = (None, 0)"
  using detect_last_motif_trailing_window [of 8 sample_util "[14, 2, 4, 1, 6, 0, 2, 4, 6]"]
  by (simp add: detect_last_motif_def py_slice_from_def sample_util_def Let_def)

section \<open>Repeated notes\<close>

text \<open>On a composition of \<open>n\<close> copies of the action the scan counts every entry it visits.\<close>

lemma repeat_scan_replicate:
  "- 1 \<le> i \<Longrightarrow> i < int n \<Longrightarrow>
   repeat_scan c (replicate n a) a i k h b = (k + i + 1, h, b)"
proof (induction "nat (i + 1)" arbitrary: i k)
  case 0
  then have "i = - 1" by simp
  then show ?case by (simp add: repeat_scan.simps[of c "replicate n a" a "- 1" k h b])
next
  case (Suc m)
  then have pos: "0 \<le> i" and m: "m = nat ((i - 1) + 1)" by simp_all
  have here: "replicate n a ! nat i = a"
    using Suc.prems pos by (simp add: nat_less_iff)
  have "repeat_scan c (replicate n a) a i k h b
          = repeat_scan c (replicate n a) a (i - 1) (k + 1) h b"
    using pos here by (simp add: repeat_scan.simps[of c "replicate n a" a i k h b])
  also have "\<dots> = ((k + 1) + (i - 1) + 1, h, b)"
    using Suc.hyps(1)[OF m] Suc.prems pos by simp
  finally show ?case by simp
qed

lemma repeat_scan_from_end_of_replicate:
  "repeat_scan c (replicate n a) a (int n - 2) 0 False False = (max (int n - 1) 0, False, False)"
proof (cases "n = 0")
  case True
  then show ?thesis by (simp add: repeat_scan.simps[of c "[]" a "- 2" 0 False False])
next
  case False
  then have "- 1 \<le> int n - 2" "int n - 2 < int n" by simp_all
  then have "repeat_scan c (replicate n a) a (int n - 2) 0 False False
               = (0 + (int n - 2) + 1, False, False)"
    by (rule repeat_scan_replicate)
  with False show ?thesis by simp
qed

text \<open>
  Claim C3, as amended. The backward scan starts at the element before the appended
  action, so on a composition of \<open>n\<close> identical entries \<open>a\<close> (a pitch, not \<^verbatim>\<open>NOTE_OFF\<close>,
  the last entry being the appended action) it counts \<open>n - 1\<close> repeats and meets no hold
  or rest: \<^verbatim>\<open>detect_repeating_notes\<close> returns \<open>True\<close> exactly when \<open>n \<ge> 6\<close>. With
  \<open>[5,5,5,5,5]\<close> and action 5 it returns \<open>False\<close>, as it does with four or fewer
  identical entries.
\<close>

theorem detect_repeating_notes_on_identical_entries:
  assumes "a \<noteq> NOTE_OFF c"
  shows "detect_repeating_notes c (e\<lparr>composition := replicate n a\<rparr>) a = (6 \<le> n)"
  using assms
  by (auto simp: detect_repeating_notes_def repeat_scan_from_end_of_replicate)

theorem detect_repeating_notes_on_identical_entries_witness:
  "5 \<noteq> NOTE_OFF sample_util
   \<and> \<not> detect_repeating_notes sample_util (MusicEnv_init_reset\<lparr>composition := [5, 5, 5, 5, 5]\<rparr>) 5
   \<and> \<not> detect_repeating_notes sample_util (MusicEnv_init_reset\<lparr>composition := [5, 5, 5, 5]\<rparr>) 5
   \<and> detect_repeating_notes sample_util (MusicEnv_init_reset\<lparr>composition := [5, 5, 5, 5, 5, 5]\<rparr>) 5
   \<and> detect_repeating_notes sample_util
        (MusicEnv_init_reset\<lparr>composition := [5, 5, 5, 5, 5, 5, 5]\<rparr>) 5"
  using detect_repeating_notes_on_identical_entries
      [where a = 5 and c = sample_util and e = MusicEnv_init_reset and n = 5]
    detect_repeating_notes_on_identical_entries
      [where a = 5 and c = sample_util and e = MusicEnv_init_reset and n = 4]
    detect_repeating_notes_on_identical_entries
      [where a = 5 and c = sample_util and e = MusicEnv_init_reset and n = 6]
    detect_repeating_notes_on_identical_entries
      [where a = 5 and c = sample_util and e = MusicEnv_init_reset and n = 7]
  by (simp add: sample_util_def eval_nat_numeral)

text \<open>
  The claim as first stated asks for \<open>True\<close> on five entries; the method returns
  \<open>False\<close> there.
\<close>

theorem five_repeats_not_excessive:
  "detect_repeating_notes sample_util
     \<lparr>composition = [5, 5, 5, 5, 5], beat = 5, composition_length = 64, num_notes = None\<rparr> 5
   = False"
  unfolding detect_repeating_notes_def
  by (simp add: repeat_scan.simps sample_util_def)

text \<open>
  Claim C9. The last \<^verbatim>\<open>else\<close> branch of \<^verbatim>\<open>detect_repeating_notes\<close>, the test against 8
  repeats, is dead: for every composition and action the method returns what it returns
  with that branch deleted, since the two branches before it test a condition and its
  negation.
\<close>

theorem last_branch_unreachable:
  "detect_repeating_notes c e action = detect_repeating_notes_without_last_branch c e action"
  unfolding detect_repeating_notes_def detect_repeating_notes_without_last_branch_def
  by (simp split: prod.splits)

section \<open>The tonic reward\<close>

lemma reward_tonic_raises_iff:
  "isl (reward_tonic c e a t amt) = (num_notes e = None)"
  by (simp add: reward_tonic_def Let_def split: option.splits)

text \<open>
  Once a caller has assigned \<^verbatim>\<open>num_notes\<close>, the method is the piecewise table around
  the first note of the final bar, \<open>n - 4\<close>.
\<close>

lemma reward_tonic_table:
  assumes "num_notes e = Some n"
  shows "reward_tonic c e a t amt =
     Inr (if beat e = 0 \<and> a = t then amt
          else if beat e = n - 4 \<and> a = t then amt
          else if beat e \<noteq> 0 \<and> beat e = n - 3 \<and> a = NO_EVENT c then amt
          else if beat e \<noteq> 0 \<and> beat e > n - 3 \<and> (a = NO_EVENT c \<or> a = NOTE_OFF c) then amt
          else 0)"
  using assms by (auto simp: reward_tonic_def Let_def)

text \<open>
  Claim C4. Under the default configuration \<^verbatim>\<open>reward_tonic\<close> should return 3 for the
  tonic at beat 0 and follow the table of the final bar, with the configured composition
  length as the total. The object built by \<^verbatim>\<open>__init__\<close> and \<^verbatim>\<open>_reset\<close> carries
  \<^verbatim>\<open>composition_length = 64\<close> and no \<^verbatim>\<open>num_notes\<close>, which is the attribute the method
  reads: on that object the method raises \<^verbatim>\<open>AttributeError\<close> for every action, tonic
  and reward amount, and returns no reward.
\<close>

theorem reward_tonic_default_configuration_raises:
  "reward_tonic c (fst (MusicEnv_reset MusicEnv_init_reset r)) action tonic_note reward_amount
     = Inl AttributeError"
  by (simp add: reward_tonic_def MusicEnv_reset_def MusicEnv_init_reset_def)

section \<open>Melodic intervals\<close>

lemma py_index_last_but_one: "py_index (xs @ [a, b]) (- 2) = Inr a"
  by (simp add: py_index_def Let_def nth_append)

lemma py_index_singleton: "py_index [a] (- 2) = Inl IndexError"
  by (simp add: py_index_def)

lemma skip_non_notes_sounded:
  "p \<noteq> NO_EVENT c \<Longrightarrow> p \<noteq> NOTE_OFF c \<Longrightarrow> skip_non_notes c cs p i = p"
  by (simp add: skip_non_notes.simps[of c cs p i])

text \<open>Over a stretch of holds and rests the loop ends on a hold or a rest.\<close>

lemma skip_non_notes_silent:
  "p \<in> {NO_EVENT c, NOTE_OFF c} \<Longrightarrow>
   (\<forall>k. 0 \<le> k \<and> k \<le> i \<longrightarrow> cs ! nat k \<in> {NO_EVENT c, NOTE_OFF c}) \<Longrightarrow>
   skip_non_notes c cs p i \<in> {NO_EVENT c, NOTE_OFF c}"
proof (induction c cs p i rule: skip_non_notes.induct)
  case (1 c cs p i)
  show ?case
  proof (cases "0 \<le> i")
    case False
    with "1.prems" show ?thesis by (simp add: skip_non_notes.simps[of c cs p i])
  next
    case True
    with "1.prems" have step: "skip_non_notes c cs p i = skip_non_notes c cs (cs ! nat i) (i - 1)"
      by (auto simp: skip_non_notes.simps[of c cs p i])
    have "cs ! nat i \<in> {NO_EVENT c, NOTE_OFF c}" using "1.prems" True by simp
    moreover have "\<forall>k. 0 \<le> k \<and> k \<le> i - 1 \<longrightarrow> cs ! nat k \<in> {NO_EVENT c, NOTE_OFF c}"
      using "1.prems" by simp
    ultimately have "skip_non_notes c cs (cs ! nat i) (i - 1) \<in> {NO_EVENT c, NOTE_OFF c}"
      using "1.IH" "1.prems" True by blast
    with step show ?thesis by simp
  qed
qed

lemma detect_sequential_interval_silent:
  assumes "py_index (composition e) (- 2) = Inr y"
    and "skip_non_notes c (composition e) y (int (length (composition e)) - 2) = p"
    and "p = NOTE_OFF c \<or> p = NO_EVENT c"
  shows "detect_sequential_interval c ops e a key = Inr (0, a, p)"
  using assms(3)
proof
  assume "p = NOTE_OFF c"
  with assms(1,2) show ?thesis by (simp add: detect_sequential_interval_def Let_def)
next
  assume "p = NO_EVENT c"
  with assms(1,2) show ?thesis by (simp add: detect_sequential_interval_def Let_def)
qed

text \<open>
  With at least one element before the action and only holds and rests there, the
  method returns the interval 0.
\<close>

lemma no_sounded_note_before:
  assumes "cs \<noteq> []" and "set cs \<subseteq> {NO_EVENT c, NOTE_OFF c}"
  shows "\<exists>p. detect_sequential_interval c ops (e\<lparr>composition := cs @ [a]\<rparr>) a key = Inr (0, a, p)"
proof -
  obtain ys y where cs: "cs = ys @ [y]"
    using assms(1) rev_exhaust by blast
  have idx: "py_index (cs @ [a]) (- 2) = Inr y"
    using py_index_last_but_one[of ys y a] cs by simp
  have y: "y \<in> {NO_EVENT c, NOTE_OFF c}" using assms(2) cs by simp
  define p where "p = skip_non_notes c (cs @ [a]) y (int (length (cs @ [a])) - 2)"
  have "\<forall>k. 0 \<le> k \<and> k \<le> int (length (cs @ [a])) - 2 \<longrightarrow> (cs @ [a]) ! nat k \<in> {NO_EVENT c, NOTE_OFF c}"
  proof (intro allI impI)
    fix k :: int assume k: "0 \<le> k \<and> k \<le> int (length (cs @ [a])) - 2"
    then have "nat k < length cs" by (simp add: nat_less_iff)
    then have "(cs @ [a]) ! nat k = cs ! nat k" "cs ! nat k \<in> set cs"
      by (simp_all add: nth_append)
    with assms(2) show "(cs @ [a]) ! nat k \<in> {NO_EVENT c, NOTE_OFF c}" by auto
  qed
  with y have "p \<in> {NO_EVENT c, NOTE_OFF c}"
    unfolding p_def by (rule skip_non_notes_silent)
  then have silent: "p = NOTE_OFF c \<or> p = NO_EVENT c" by blast
  have "detect_sequential_interval c ops (e\<lparr>composition := cs @ [a]\<rparr>) a key = Inr (0, a, p)"
  proof (rule detect_sequential_interval_silent[OF _ _ silent])
    show "py_index (composition (e\<lparr>composition := cs @ [a]\<rparr>)) (- 2) = Inr y"
      using idx by simp
    show "skip_non_notes c (composition (e\<lparr>composition := cs @ [a]\<rparr>)) y
            (int (length (composition (e\<lparr>composition := cs @ [a]\<rparr>))) - 2) = p"
      unfolding p_def by simp
  qed
  then show ?thesis ..
qed

text \<open>
  Claim C6. When nothing but holds and rests precedes the action, the interval should
  be 0 and the method should not fail, also when the composition holds the action alone.
  On a composition of one element the first statement, \<^verbatim>\<open>self.composition[-2]\<close>, is out
  of range: the method raises \<^verbatim>\<open>IndexError\<close> for every action and key.
\<close>

theorem detect_sequential_interval_single_element_raises:
  "detect_sequential_interval c ops (e\<lparr>composition := [action]\<rparr>) action key = Inl IndexError"
  by (simp add: detect_sequential_interval_def py_index_singleton)

text \<open>The interval between two sounded pitches, previous note \<open>a\<close> and action \<open>b\<close>.\<close>

lemma detect_sequential_interval_sounded:
  assumes "a \<noteq> NO_EVENT c" "a \<noteq> NOTE_OFF c" "b \<noteq> NO_EVENT c" "b \<noteq> NOTE_OFF c"
  shows "detect_sequential_interval c ops (e\<lparr>composition := xs @ [a, b]\<rparr>) b key =
     Inr (if key = None \<and> real_of_int \<bar>b - a\<bar> = FIFTH ops \<and>
             (a \<in> set [2, 14, 26] \<or> a \<in> set [9, 21, 33])
            then IN_KEY_FIFTH ops
          else if key = None \<and> real_of_int \<bar>b - a\<bar> = THIRD ops \<and>
             (a \<in> set [2, 14, 26] \<or> a \<in> set [6, 18, 30])
            then IN_KEY_THIRD ops
          else real_of_int \<bar>b - a\<bar>, b, a)"
proof -
  have idx: "py_index (composition (e\<lparr>composition := xs @ [a, b]\<rparr>)) (- 2) = Inr a"
    by (simp add: py_index_last_but_one)
  have skip: "skip_non_notes c cs a i = a" for cs i
    using assms(1,2) by (rule skip_non_notes_sounded)
  have push: "(if P then Inr (x, b, a) else Inr (y, b, a)) = Inr (if P then x else y, b, a)"
    for P and x y :: real
    by simp
  show ?thesis
    unfolding detect_sequential_interval_def idx sum.case Let_def skip
    using assms(1-4) by (simp only: if_False simp_thms push)
qed

text \<open>
  Claim C5, as amended. For sounded pitches \<open>a\<close> and \<open>b\<close> the semitone distance is the
  same in both orders, and the category of (previous \<open>a\<close>, action \<open>b\<close>) equals that of
  (previous \<open>b\<close>, action \<open>a\<close>) whenever the in-key test cannot tell the two apart: a key
  is passed, or the distance is neither \<^verbatim>\<open>FIFTH\<close> nor \<^verbatim>\<open>THIRD\<close>, or \<open>a\<close> and \<open>b\<close> are
  both in, or both outside, the tonic and dominant lists (for a fifth) and the tonic and
  mediant lists (for a third). The in-key fifth and third are recognised from the
  previous note alone, so the category is not symmetric for every pair.
\<close>

theorem interval_category_symmetric_when_note_classes_agree:
  assumes "a \<noteq> NO_EVENT c" "a \<noteq> NOTE_OFF c" "b \<noteq> NO_EVENT c" "b \<noteq> NOTE_OFF c"
    and "key = None \<and> real_of_int \<bar>b - a\<bar> = FIFTH ops \<longrightarrow>
           (a \<in> set [2, 14, 26] \<or> a \<in> set [9, 21, 33])
           = (b \<in> set [2, 14, 26] \<or> b \<in> set [9, 21, 33])"
    and "key = None \<and> real_of_int \<bar>b - a\<bar> = THIRD ops \<longrightarrow>
           (a \<in> set [2, 14, 26] \<or> a \<in> set [6, 18, 30])
           = (b \<in> set [2, 14, 26] \<or> b \<in> set [6, 18, 30])"
  shows "\<exists>category.
           detect_sequential_interval c ops (e\<lparr>composition := xs @ [a, b]\<rparr>) b key
             = Inr (category, b, a)
         \<and> detect_sequential_interval c ops (e'\<lparr>composition := ys @ [b, a]\<rparr>) a key
             = Inr (category, a, b)"
proof -
  have sym: "\<bar>a - b\<bar> = \<bar>b - a\<bar>" by simp
  have ab: "detect_sequential_interval c ops (e\<lparr>composition := xs @ [a, b]\<rparr>) b key =
     Inr (if key = None \<and> real_of_int \<bar>b - a\<bar> = FIFTH ops \<and>
             (a \<in> set [2, 14, 26] \<or> a \<in> set [9, 21, 33])
            then IN_KEY_FIFTH ops
          else if key = None \<and> real_of_int \<bar>b - a\<bar> = THIRD ops \<and>
             (a \<in> set [2, 14, 26] \<or> a \<in> set [6, 18, 30])
            then IN_KEY_THIRD ops
          else real_of_int \<bar>b - a\<bar>, b, a)"
    using assms(1-4) by (rule detect_sequential_interval_sounded)
  have ba: "detect_sequential_interval c ops (e'\<lparr>composition := ys @ [b, a]\<rparr>) a key =
     Inr (if key = None \<and> real_of_int \<bar>b - a\<bar> = FIFTH ops \<and>
             (b \<in> set [2, 14, 26] \<or> b \<in> set [9, 21, 33])
            then IN_KEY_FIFTH ops
          else if key = None \<and> real_of_int \<bar>b - a\<bar> = THIRD ops \<and>
             (b \<in> set [2, 14, 26] \<or> b \<in> set [6, 18, 30])
            then IN_KEY_THIRD ops
          else real_of_int \<bar>b - a\<bar>, a, b)"
    using detect_sequential_interval_sounded[OF assms(3,4,1,2),
        where ops = ops and e = e' and xs = ys and key = key]
    unfolding sym .
  have "(key = None \<and> real_of_int \<bar>b - a\<bar> = FIFTH ops \<and>
           (a \<in> set [2, 14, 26] \<or> a \<in> set [9, 21, 33]))
      = (key = None \<and> real_of_int \<bar>b - a\<bar> = FIFTH ops \<and>
           (b \<in> set [2, 14, 26] \<or> b \<in> set [9, 21, 33]))"
    using assms(5) by blast
  moreover have "(key = None \<and> real_of_int \<bar>b - a\<bar> = THIRD ops \<and>
           (a \<in> set [2, 14, 26] \<or> a \<in> set [6, 18, 30]))
      = (key = None \<and> real_of_int \<bar>b - a\<bar> = THIRD ops \<and>
           (b \<in> set [2, 14, 26] \<or> b \<in> set [6, 18, 30]))"
    using assms(6) by blast
  ultimately show ?thesis
    unfolding ab ba by (simp only:) blast
qed

text \<open>The tonic 2 and the dominant 9, in both orders: an in-key fifth each time.\<close>

theorem interval_category_symmetric_when_note_classes_agree_witness:
  "2 \<noteq> NO_EVENT sample_util \<and> 2 \<noteq> NOTE_OFF sample_util
   \<and> 9 \<noteq> NO_EVENT sample_util \<and> 9 \<noteq> NOTE_OFF sample_util
   \<and> real_of_int \<bar>9 - 2\<bar> = FIFTH sample_ops
   \<and> ((2::int) \<in> set [2, 14, 26] \<or> (2::int) \<in> set [9, 21, 33])
       = ((9::int) \<in> set [2, 14, 26] \<or> (9::int) \<in> set [9, 21, 33])
   \<and> real_of_int \<bar>9 - 2\<bar> \<noteq> THIRD sample_ops
   \<and> detect_sequential_interval sample_util sample_ops
     \<lparr>composition = [2, 9], beat = 2, composition_length = 64, num_notes = None\<rparr> 9 None
     = Inr (- 5, 9, 2)
   \<and> detect_sequential_interval sample_util sample_ops
     \<lparr>composition = [9, 2], beat = 2, composition_length = 64, num_notes = None\<rparr> 2 None
     = Inr (- 5, 2, 9)"
  using interval_category_symmetric_when_note_classes_agree
    [where a = 2 and b = 9 and c = sample_util and ops = sample_ops and key = None
     and xs = "[]" and ys = "[]"
     and e = "\<lparr>composition = [], beat = 2, composition_length = 64, num_notes = None\<rparr>"
     and e' = "\<lparr>composition = [], beat = 2, composition_length = 64, num_notes = None\<rparr>"]
  by (simp add: detect_sequential_interval_def py_index_def skip_non_notes.simps
      sample_util_def sample_ops_def Let_def)

text \<open>
  The claim as first stated fails for the pitches 14 and 7, seven semitones apart: from
  14 to 7 the previous note is a tonic and the category is the in-key fifth, from 7 to 14
  the previous note is in neither list and the category is the plain distance 7.
\<close>

theorem fifth_from_tonic_differs_from_fifth_to_tonic:
  "detect_sequential_interval sample_util sample_ops
     \<lparr>composition = [14, 7], beat = 2, composition_length = 64, num_notes = None\<rparr> 7 None
     = Inr (- 5, 7, 14)
   \<and> detect_sequential_interval sample_util sample_ops
     \<lparr>composition = [7, 14], beat = 2, composition_length = 64, num_notes = None\<rparr> 14 None
     = Inr (7, 14, 7)
   \<and> (- 5 :: real) \<noteq> 7"
  by (simp add: detect_sequential_interval_def py_index_def skip_non_notes.simps
      sample_util_def sample_ops_def Let_def)

section \<open>The step\<close>

lemma MusicEnv_step_eq:
  "MusicEnv_step e a =
     (e\<lparr>composition := composition e @ [a], beat := beat e + 1\<rparr>,
      (a, 0, beat e + 1 = composition_length e, []))"
  by (simp add: MusicEnv_step_def Let_def)

lemma MusicTheoryEnv_step_state:
  "fst (MusicTheoryEnv_step c e a) = fst (MusicEnv_step e a)"
  by (simp add: MusicTheoryEnv_step_def MusicEnv_step_eq Let_def split: sum.splits)

lemma after_steps_eq:
  "after_steps c e as = e\<lparr>composition := composition e @ as, beat := beat e + int (length as)\<rparr>"
proof (induction as arbitrary: e)
  case Nil
  show ?case by (simp add: after_steps_def)
next
  case (Cons a as)
  have "after_steps c e (a # as) = after_steps c (fst (MusicTheoryEnv_step c e a)) as"
    by (simp add: after_steps_def)
  then show ?case
    by (simp add: Cons MusicTheoryEnv_step_state MusicEnv_step_eq)
qed

lemma MusicTheoryEnv_step_eq:
  "MusicTheoryEnv_step c e a =
     (let e' = e\<lparr>composition := composition e @ [a], beat := beat e + 1\<rparr> in
      (e', case reward_tonic c e' a (C_MAJOR_TONIC c) 3 of
             Inl err \<Rightarrow> Inl err
           | Inr tonic \<Rightarrow>
               Inr (a, reward_key a (- 1) (C_MAJOR_KEY c) + reward_non_repeating c e' a + tonic
                       + reward_motif c e' a 3 + reward_repeated_motif c e' a (BEATS_PER_BAR c) 4,
                    beat e + 1 = composition_length e, [])))"
  by (simp add: MusicTheoryEnv_step_def MusicEnv_step_eq Let_def split: sum.splits)

text \<open>
  Claim C7. After \<^verbatim>\<open>_reset\<close> and any sequence of steps, the next step has incremented
  the beat counter to the number of steps taken, and the done flag it returns is \<open>True\<close>
  exactly when that counter equals \<^verbatim>\<open>composition_length\<close> (64 after \<^verbatim>\<open>__init__\<close>), so it
  is \<open>False\<close> on every earlier step; nothing else enters the flag. The step of
  \<^verbatim>\<open>MusicEnv\<close> always returns it. The step of \<^verbatim>\<open>MusicTheoryEnv\<close> passes the same flag on
  when it returns, and it returns unless \<^verbatim>\<open>num_notes\<close> was never assigned, in which case
  \<^verbatim>\<open>reward_tonic\<close> raises \<^verbatim>\<open>AttributeError\<close>.
\<close>

theorem done_flag_exactly_at_composition_length:
  "(let E = after_steps c (fst (MusicEnv_reset e r)) as;
        E' = fst (MusicEnv_step E a)
    in beat E' = int (length as) + 1
     \<and> snd (MusicEnv_step E a) = (a, 0, beat E' = composition_length e, [])
     \<and> (case snd (MusicTheoryEnv_step c E a) of
          Inl err \<Rightarrow> err = AttributeError \<and> num_notes e = None
        | Inr (state, reward, done, info) \<Rightarrow>
            done = (beat E' = composition_length e) \<and> num_notes e \<noteq> None))
   \<and> composition_length MusicEnv_init_reset = 64"
  by (simp add: MusicEnv_step_eq MusicTheoryEnv_step_eq after_steps_eq MusicEnv_reset_def
      MusicEnv_init_reset_def reward_tonic_def Let_def split: sum.splits option.splits)

text \<open>
  Claim C8. The reward a step returns should be the sum of \<^verbatim>\<open>reward_key\<close>,
  \<^verbatim>\<open>reward_non_repeating\<close>, \<^verbatim>\<open>reward_tonic\<close>, \<^verbatim>\<open>reward_motif\<close> and
  \<^verbatim>\<open>reward_repeated_motif\<close> on the object after the append. The method adds those five
  and nothing else (lemma \<open>MusicTheoryEnv_step_eq\<close>), but the first of them,
  \<^verbatim>\<open>reward_tonic\<close>, reads \<^verbatim>\<open>num_notes\<close>: on the object built by \<^verbatim>\<open>__init__\<close> and
  \<^verbatim>\<open>_reset\<close>, after any sequence of steps, the step appends the action, increments the
  beat and raises \<^verbatim>\<open>AttributeError\<close>. No step of such an object returns a reward.
\<close>

theorem default_step_raises_before_any_reward:
  "MusicTheoryEnv_step c (after_steps c (fst (MusicEnv_reset MusicEnv_init_reset r)) as) action
     = (\<lparr>composition = as @ [action], beat = int (length as) + 1,
         composition_length = 64, num_notes = None\<rparr>,
        Inl AttributeError)"
  by (simp add: MusicTheoryEnv_step_eq after_steps_eq MusicEnv_reset_def MusicEnv_init_reset_def
      reward_tonic_def Let_def)

text \<open>
  Claim C10. After \<^verbatim>\<open>_reset\<close> the beat and the composition's length are both 0. A step
  from an object with \<open>beat = len(composition)\<close> appends one element and adds one to the
  beat before any reward is computed, so the five rewards are computed on an object with
  \<open>beat = len(composition) \<ge> 1\<close>, and the invariant holds after the step, whether it
  returns or raises. On that object the test \<^verbatim>\<open>self.beat == 0\<close> of \<^verbatim>\<open>reward_tonic\<close> is
  false: the method is the table of the final bar alone.
\<close>

theorem beat_equals_composition_length_invariant:
  "beat (fst (MusicEnv_reset e0 r)) = 0 \<and> composition (fst (MusicEnv_reset e0 r)) = []
   \<and> (beat e = int (length (composition e)) \<longrightarrow>
        (let e' = fst (MusicTheoryEnv_step c e action) in
           e' = fst (MusicEnv_step e action)
         \<and> composition e' = composition e @ [action] \<and> beat e' = beat e + 1
         \<and> beat e' = int (length (composition e')) \<and> 1 \<le> beat e' \<and> beat e' \<noteq> 0
         \<and> snd (MusicTheoryEnv_step c e action) =
             (case reward_tonic c e' action (C_MAJOR_TONIC c) 3 of
                Inl err \<Rightarrow> Inl err
              | Inr tonic \<Rightarrow>
                  Inr (action,
                       0 + tonic + reward_key action (- 1) (C_MAJOR_KEY c)
                         + reward_non_repeating c e' action + reward_motif c e' action 3
                         + reward_repeated_motif c e' action (BEATS_PER_BAR c) 4,
                       beat e' = composition_length e', []))
         \<and> reward_tonic c e' action tonic_note reward_amount =
             (case num_notes e' of
                None \<Rightarrow> Inl AttributeError
              | Some n \<Rightarrow>
                  Inr (if beat e' = n - 4 then (if action = tonic_note then reward_amount else 0)
                       else if beat e' = n - 3 then (if action = NO_EVENT c then reward_amount else 0)
                       else if beat e' > n - 3 then
                         (if action = NO_EVENT c \<or> action = NOTE_OFF c then reward_amount else 0)
                       else 0))))"
proof -
  have reset: "beat (fst (MusicEnv_reset e0 r)) = 0 \<and> composition (fst (MusicEnv_reset e0 r)) = []"
    by (simp add: MusicEnv_reset_def)
  have step: ?thesis if inv: "beat e = int (length (composition e))"
  proof -
    define e' where "e' = e\<lparr>composition := composition e @ [action], beat := beat e + 1\<rparr>"
    have st: "fst (MusicTheoryEnv_step c e action) = e'" "fst (MusicEnv_step e action) = e'"
      by (simp_all add: MusicTheoryEnv_step_state MusicEnv_step_eq e'_def)
    have b: "beat e' = int (length (composition e'))" "1 \<le> beat e'" "beat e' \<noteq> 0"
      "composition e' = composition e @ [action]" "beat e' = beat e + 1"
      using inv by (simp_all add: e'_def)
    have out: "snd (MusicTheoryEnv_step c e action) =
             (case reward_tonic c e' action (C_MAJOR_TONIC c) 3 of
                Inl err \<Rightarrow> Inl err
              | Inr tonic \<Rightarrow>
                  Inr (action,
                       0 + tonic + reward_key action (- 1) (C_MAJOR_KEY c)
                         + reward_non_repeating c e' action + reward_motif c e' action 3
                         + reward_repeated_motif c e' action (BEATS_PER_BAR c) 4,
                       beat e' = composition_length e', []))"
      by (simp add: MusicTheoryEnv_step_eq Let_def e'_def split: sum.splits)
    have tonic: "reward_tonic c e' action tonic_note reward_amount =
             (case num_notes e' of
                None \<Rightarrow> Inl AttributeError
              | Some n \<Rightarrow>
                  Inr (if beat e' = n - 4 then (if action = tonic_note then reward_amount else 0)
                       else if beat e' = n - 3 then (if action = NO_EVENT c then reward_amount else 0)
                       else if beat e' > n - 3 then
                         (if action = NO_EVENT c \<or> action = NOTE_OFF c then reward_amount else 0)
                       else 0))"
      using b(3) by (simp add: reward_tonic_def Let_def split: option.splits)
    show ?thesis
      unfolding Let_def st using reset b out tonic by simp
  qed
  show ?thesis
  proof (cases "beat e = int (length (composition e))")
    case True
    then show ?thesis by (rule step)
  next
    case False
    with reset show ?thesis by simp
  qed
qed

text \<open>The first step after \<^verbatim>\<open>__init__\<close> and \<^verbatim>\<open>_reset\<close>, with the tonic 14.\<close>

theorem beat_equals_composition_length_invariant_witness:
  "beat (fst (MusicEnv_reset MusicEnv_init_reset 7))
     = int (length (composition (fst (MusicEnv_reset MusicEnv_init_reset 7))))
   \<and> fst (MusicTheoryEnv_step sample_util (fst (MusicEnv_reset MusicEnv_init_reset 7)) 14)
       = \<lparr>composition = [14], beat = 1, composition_length = 64, num_notes = None\<rparr>
   \<and> snd (MusicTheoryEnv_step sample_util (fst (MusicEnv_reset MusicEnv_init_reset 7)) 14)
       = Inl AttributeError"
  using beat_equals_composition_length_invariant
    [of MusicEnv_init_reset 7 "fst (MusicEnv_reset MusicEnv_init_reset 7)" sample_util 14]
  by (simp add: MusicEnv_reset_def MusicEnv_init_reset_def MusicEnv_step_eq reward_tonic_def Let_def)

end
